theory Spec2Isabelle
  imports Main "HOL-Library.Word"
begin

unbundle bit_operations_syntax

section \<open>The virtual machine of main.go\<close>

text \<open>
  The interpreter keeps eight registers, a stack, the program image (which is also the
  data memory), an instruction index and a line buffer, all of them \<open>uint16\<close> values or
  slices of them. Every Go panic (explicit or raised by the runtime) is a value of
  \<open>error\<close>; a slice access carries its bounds check.
\<close>

type_synonym word16 = "16 word"
type_synonym byte = "8 word"

datatype error =
    Overflow
  | IndexOutOfRange
  | EmptyStack
  | DivideByZero
  | UnknownOpcode word16
  | EndOfInput

definition bindE :: "error + 'a \<Rightarrow> ('a \<Rightarrow> error + 'b) \<Rightarrow> error + 'b" where
  "bindE m f = (case m of Inl e \<Rightarrow> Inl e | Inr x \<Rightarrow> f x)"

text \<open>\<open>xs[i]\<close> on a slice indexed by a \<open>uint16\<close>: a runtime panic out of range.\<close>

definition at :: "word16 list \<Rightarrow> word16 \<Rightarrow> error + word16" where
  "at xs i = (if unat i < length xs then Inr (xs ! unat i) else Inl IndexOutOfRange)"

subsection \<open>getValue and setRegister\<close>

definition getValue :: "word16 list \<Rightarrow> word16 \<Rightarrow> error + word16" where
  "getValue regs v =
     (if v < 32768 then Inr v
      else if v > 32775 then Inl Overflow
      else at regs (v - 32768))"

text \<open>
  \<open>registers[register-32768] = getValue(registers, value)\<close>: the right-hand side is
  evaluated first, the bounds check belongs to the store. The subtraction is on
  \<open>uint16\<close> and wraps.
\<close>

definition setRegister :: "word16 list \<Rightarrow> word16 \<Rightarrow> word16 \<Rightarrow> error + word16 list" where
  "setRegister regs r v =
     bindE (getValue regs v) (\<lambda>x.
       if unat (r - 32768) < length regs
       then Inr (regs[unat (r - 32768) := x])
       else Inl IndexOutOfRange)"

subsection \<open>The stack\<close>

text \<open>
  The slice \<open>s.s\<close> of the \<open>stack\<close> struct; the top is the last element. The mutex is
  not modelled: the interpreter is the only goroutine.
\<close>

definition Push :: "word16 list \<Rightarrow> word16 \<Rightarrow> word16 list" where
  "Push s v = s @ [v]"

definition Pop :: "word16 list \<Rightarrow> error + (word16 \<times> word16 list)" where
  "Pop s =
     (let l = length s in
      if l = 0 then Inl EmptyStack
      else Inr (s ! (l - 1), take (l - 1) s))"

fun PushAll :: "word16 list \<Rightarrow> word16 list \<Rightarrow> word16 list" where
  "PushAll s [] = s"
| "PushAll s (x # xs) = PushAll (Push s x) xs"

fun PopN :: "nat \<Rightarrow> word16 list \<Rightarrow> error + (word16 list \<times> word16 list)" where
  "PopN 0 s = Inr ([], s)"
| "PopN (Suc n) s =
     (case Pop s of
        Inl e \<Rightarrow> Inl e
      | Inr (x, s') \<Rightarrow>
          (case PopN n s' of Inl e \<Rightarrow> Inl e | Inr (xs, s'') \<Rightarrow> Inr (x # xs, s'')))"

subsection \<open>Machine state\<close>

text \<open>
  The local variables of \<open>main\<close>. \<open>input\<close> is the line buffer. \<open>stdin\<close> is what the
  reads on \<open>os.Stdin\<close> still have to return, one list element for each read, in
  order: a line at a time from a terminal, whatever is available (several lines, or
  part of one) from a pipe or a file. A read that returns no bytes is the end of the
  stream, and so is the end of the list. \<open>stdout\<close> holds the character codes given to
  \<open>fmt.Printf("%c", _)\<close> and \<open>stderr\<close> the bytes written by the builtin \<open>print\<close>.
  \<open>debug\<close> is constantly false, so the trace is never printed and is left out.
\<close>

record vm =
  registers :: "word16 list"
  stack :: "word16 list"
  program :: "word16 list"
  index :: word16
  input :: "byte list"
  stdin :: "byte list list"
  stdout :: "word16 list"
  stderr :: "byte list"

definition init :: "word16 list \<Rightarrow> byte list list \<Rightarrow> vm" where
  "init img tty =
     \<lparr>registers = replicate 8 0, stack = [], program = img, index = 0,
      input = [], stdin = tty, stdout = [], stderr = []\<rparr>"

datatype outcome = Continue vm | Stopped vm | Fatal error

text \<open>
  \<open>bufio.NewReader(os.Stdin).ReadString('\n')\<close>, on a reader that is made for this one
  call. The reader fills its buffer by one read on \<open>os.Stdin\<close> after the other until
  the buffered bytes contain a newline, and returns the bytes up to and including the
  first newline. What the last read returned beyond that newline stays in the buffer of
  the reader, which is dropped with the reader: these bytes are lost. The reads that
  were not made stay with the stream. The result is the line and the remaining reads;
  \<open>None\<close> when the stream ends before a newline (\<open>io.EOF\<close>, which the caller turns
  into a panic).
\<close>

fun ReadString :: "byte list list \<Rightarrow> (byte list \<times> byte list list) option" where
  "ReadString [] = None"
| "ReadString (chunk # later) =
     (if chunk = [] then None
      else if 10 \<in> set chunk then Some (takeWhile (\<lambda>ch. ch \<noteq> 10) chunk @ [10], later)
      else (case ReadString later of
              None \<Rightarrow> None
            | Some (line, later') \<Rightarrow> Some (chunk @ line, later')))"

subsection \<open>One iteration of the loop\<close>

text \<open>
  What an iteration reads from the program: the three operand reads at the top of the
  loop, then \<open>program[index]\<close> for the switch. \<open>length\<close> is \<open>uint16(len(program))\<close>
  and all three operand reads are guarded by the same test \<open>index+1 < length\<close>; the
  sums are \<open>uint16\<close> and wrap.
\<close>

definition fetch ::
  "word16 list \<Rightarrow> word16 \<Rightarrow> error + (word16 \<times> word16 \<times> word16 \<times> word16)" where
  "fetch prog idx =
     (let len = (of_nat (length prog) :: word16) in
      bindE (if idx + 1 < len then at prog (idx + 1) else Inr 0) (\<lambda>a.
      bindE (if idx + 1 < len then at prog (idx + 2) else Inr 0) (\<lambda>b.
      bindE (if idx + 1 < len then at prog (idx + 3) else Inr 0) (\<lambda>c.
      bindE (at prog idx) (\<lambda>op.
      Inr (op, a, b, c))))))"

text \<open>Helpers for the shapes that recur in the switch.\<close>

definition store :: "vm \<Rightarrow> word16 \<Rightarrow> word16 \<Rightarrow> word16 \<Rightarrow> outcome" where
  \<comment> \<open>\<open>setRegister(registers, a, v); index += k\<close>\<close>
  "store s a v k =
     (case setRegister (registers s) a v of
        Inl e \<Rightarrow> Fatal e
      | Inr regs \<Rightarrow> Continue (s\<lparr>registers := regs, index := index s + k\<rparr>))"

definition binop ::
  "vm \<Rightarrow> word16 \<Rightarrow> word16 \<Rightarrow> word16 \<Rightarrow> (word16 \<Rightarrow> word16 \<Rightarrow> word16) \<Rightarrow> outcome" where
  \<comment> \<open>\<open>v := f(getValue(b), getValue(c)); setRegister(registers, a, v); index += 3\<close>\<close>
  "binop s a b c f =
     (case getValue (registers s) b of
        Inl e \<Rightarrow> Fatal e
      | Inr x \<Rightarrow>
          (case getValue (registers s) c of
             Inl e \<Rightarrow> Fatal e
           | Inr y \<Rightarrow> store s a (f x y) 3))"

definition jump :: "vm \<Rightarrow> word16 \<Rightarrow> outcome" where
  \<comment> \<open>\<open>index = getValue(registers, v) - 1\<close>\<close>
  "jump s v =
     (case getValue (registers s) v of
        Inl e \<Rightarrow> Fatal e
      | Inr t \<Rightarrow> Continue (s\<lparr>index := t - 1\<rparr>))"

definition exec :: "vm \<Rightarrow> word16 \<Rightarrow> word16 \<Rightarrow> word16 \<Rightarrow> word16 \<Rightarrow> outcome" where
  "exec s op a b c =
     (if op = 0 then Stopped s
      else if op = 1 then store s a b 2
      else if op = 2 then
        (case getValue (registers s) a of
           Inl e \<Rightarrow> Fatal e
         | Inr x \<Rightarrow> Continue (s\<lparr>stack := Push (stack s) x, index := index s + 1\<rparr>))
      else if op = 3 then
        (case Pop (stack s) of
           Inl e \<Rightarrow> Fatal e
         | Inr (x, st) \<Rightarrow> store (s\<lparr>stack := st\<rparr>) a x 1)
      else if op = 4 then binop s a b c (\<lambda>x y. if x = y then 1 else 0)
      else if op = 5 then binop s a b c (\<lambda>x y. if x > y then 1 else 0)
      else if op = 6 then jump s a
      else if op = 7 then
        (case getValue (registers s) a of
           Inl e \<Rightarrow> Fatal e
         | Inr x \<Rightarrow> if x \<noteq> 0 then jump s b else Continue (s\<lparr>index := index s + 2\<rparr>))
      else if op = 8 then
        (case getValue (registers s) a of
           Inl e \<Rightarrow> Fatal e
         | Inr x \<Rightarrow> if x = 0 then jump s b else Continue (s\<lparr>index := index s + 2\<rparr>))
      else if op = 9 then binop s a b c (\<lambda>x y. (x + y) mod 32768)
      else if op = 10 then binop s a b c (\<lambda>x y. (x * y) mod 32768)
      else if op = 11 then
        (case getValue (registers s) b of
           Inl e \<Rightarrow> Fatal e
         | Inr x \<Rightarrow>
             (case getValue (registers s) c of
                Inl e \<Rightarrow> Fatal e
              | Inr y \<Rightarrow> if y = 0 then Fatal DivideByZero else store s a (x mod y) 3))
      else if op = 12 then binop s a b c (\<lambda>x y. (x AND y) mod 32768)
      else if op = 13 then binop s a b c (\<lambda>x y. (x OR y) mod 32768)
      else if op = 14 then
        (case getValue (registers s) b of
           Inl e \<Rightarrow> Fatal e
         | Inr x \<Rightarrow> store s a ((NOT x) mod 32768) 2)
      else if op = 15 then
        (case bindE (getValue (registers s) b) (\<lambda>addr.
                bindE (at (program s) addr) (getValue (registers s))) of
           Inl e \<Rightarrow> Fatal e
         | Inr x \<Rightarrow> store s a x 2)
      else if op = 16 then
        (case getValue (registers s) a of
           Inl e \<Rightarrow> Fatal e
         | Inr address \<Rightarrow>
             (case getValue (registers s) b of
                Inl e \<Rightarrow> Fatal e
              | Inr x \<Rightarrow>
                  if unat address < length (program s)
                  then Continue (s\<lparr>program := (program s)[unat address := x],
                                   index := index s + 2\<rparr>)
                  else Fatal IndexOutOfRange))
      else if op = 17 then jump (s\<lparr>stack := Push (stack s) (index s + 2)\<rparr>) a
      else if op = 18 then
        (case Pop (stack s) of
           Inl e \<Rightarrow> Stopped s
         | Inr (x, st) \<Rightarrow> jump (s\<lparr>stack := st\<rparr>) x)
      else if op = 19 then
        (case getValue (registers s) a of
           Inl e \<Rightarrow> Fatal e
         | Inr x \<Rightarrow> Continue (s\<lparr>stdout := stdout s @ [x], index := index s + 1\<rparr>))
      else if op = 20 then
        (case (if input s = []
               then (case ReadString (stdin s) of
                       None \<Rightarrow> Inl EndOfInput
                     | Some (line, later) \<Rightarrow>
                         Inr (s\<lparr>input := line, stdin := later, stderr := stderr s @ [58]\<rparr>))
               else Inr s) of
           Inl e \<Rightarrow> Fatal e
         | Inr s1 \<Rightarrow>
             (case input s1 of
                [] \<Rightarrow> Fatal IndexOutOfRange
              | ch # rest \<Rightarrow>
                  (case getValue (registers s1) (ucast ch) of
                     Inl e \<Rightarrow> Fatal e
                   | Inr x \<Rightarrow> store (s1\<lparr>input := rest\<rparr>) a x 1)))
      else if op = 21 then Continue s
      else Fatal (UnknownOpcode op))"

text \<open>
  One pass through the loop body: the operand reads, the switch on \<open>program[index]\<close>,
  and the \<open>index++\<close> that ends every iteration which does not leave the loop.
\<close>

definition step :: "vm \<Rightarrow> outcome" where
  "step s =
     (case fetch (program s) (index s) of
        Inl e \<Rightarrow> Fatal e
      | Inr (op, a, b, c) \<Rightarrow>
          (case exec s op a b c of
             Continue s' \<Rightarrow> Continue (s'\<lparr>index := index s' + 1\<rparr>)
           | Stopped s' \<Rightarrow> Stopped s'
           | Fatal e \<Rightarrow> Fatal e))"

text \<open>The loop, cut off after a given number of iterations.\<close>

fun steps :: "nat \<Rightarrow> vm \<Rightarrow> outcome" where
  "steps 0 s = Continue s"
| "steps (Suc n) s =
     (case step s of
        Continue s' \<Rightarrow> steps n s'
      | Stopped s' \<Rightarrow> Stopped s'
      | Fatal e \<Rightarrow> Fatal e)"

text \<open>The states the loop can be in at the top of an iteration.\<close>

inductive reachable :: "word16 list \<Rightarrow> byte list list \<Rightarrow> vm \<Rightarrow> bool" where
  reach_init: "reachable img tty (init img tty)"
| reach_step: "reachable img tty s \<Longrightarrow> step s = Continue s' \<Longrightarrow> reachable img tty s'"

subsection \<open>The opcode table of the specification\<close>

text \<open>
  The operand counts of the specification's opcode table (section 4.3), written from
  the table and not from the code, to compare the code's index arithmetic with it.
  Values that are no opcode have no operands.
\<close>

definition spec_operand_count :: "word16 \<Rightarrow> nat" where
  "spec_operand_count op =
     (if op \<in> {4, 5, 9, 10, 11, 12, 13} then 3
      else if op \<in> {1, 7, 8, 14, 15, 16} then 2
      else if op \<in> {2, 3, 6, 17, 19, 20} then 1
      else 0)"

subsection \<open>The arithmetic of the specification\<close>

text \<open>
  The results of \<open>add\<close>, \<open>mult\<close>, \<open>and\<close> and \<open>or\<close> as the specification's opcode table
  gives them (section 4.3): the operation on the two values as unbounded natural
  numbers, reduced modulo 32768. Written from the table and not from the code, to
  compare with what the code stores.
\<close>

definition spec_arith :: "word16 \<Rightarrow> word16 \<Rightarrow> word16 \<Rightarrow> word16" where
  "spec_arith op x y =
     (if op = 9 then of_nat ((unat x + unat y) mod 32768)
      else if op = 10 then of_nat ((unat x * unat y) mod 32768)
      else if op = 12 then of_nat ((unat x AND unat y) mod 32768)
      else if op = 13 then of_nat ((unat x OR unat y) mod 32768)
      else 0)"

subsection \<open>A program image with a call high in memory\<close>

text \<open>
  An image of 32770 words: \<open>jmp 32766\<close> at address 0, \<open>ret\<close> at address 4, and
  \<open>call 4\<close> at address 32766; every other word is 0.
\<close>

definition far_call_image :: "word16 list" where
  "far_call_image = [6, 32766, 0, 0, 18, 0, 0, 0] @ replicate 32758 0 @ [17, 4, 0, 0]"

text \<open>
  Two states to run single instructions in: the loop at a \<open>call 0\<close> placed at address
  \<open>p\<close> of an otherwise zero image, and the loop at a \<open>ret\<close> with given registers and
  stack.
\<close>

definition call_at :: "nat \<Rightarrow> vm" where
  "call_at p = (init (replicate p 0 @ [17, 0, 0, 0]) [])\<lparr>index := of_nat p\<rparr>"

definition ret_on :: "word16 list \<Rightarrow> word16 list \<Rightarrow> vm" where
  "ret_on regs st = (init [18] [])\<lparr>registers := regs, stack := st\<rparr>"

subsection \<open>The storage invariant\<close>

text \<open>
  The register bank has its eight slots and every slot holds a 15-bit value; every
  memory cell holds a 15-bit value or still the word the image was loaded with.
\<close>

definition regs_ok :: "word16 list \<Rightarrow> bool" where
  "regs_ok regs \<longleftrightarrow> length regs = 8 \<and> list_all (\<lambda>r. r < 32768) regs"

definition mem_ok :: "word16 list \<Rightarrow> word16 list \<Rightarrow> bool" where
  "mem_ok img mem \<longleftrightarrow> list_all2 (\<lambda>m i. m < 32768 \<or> m = i) mem img"

definition storage_ok :: "word16 list \<Rightarrow> vm \<Rightarrow> bool" where
  "storage_ok img s \<longleftrightarrow> regs_ok (registers s) \<and> mem_ok img (program s)"

section \<open>Value resolution\<close>

lemma lt_32768: "(v::word16) < 32768 \<longleftrightarrow> unat v < 32768"
  by (simp add: word_less_nat_alt)

lemma gt_32775: "(v::word16) > 32775 \<longleftrightarrow> unat v > 32775"
  by (simp add: word_less_nat_alt)

lemma unat_sub_32768: "\<not> (v::word16) < 32768 \<Longrightarrow> unat (v - 32768) = unat v - 32768"
  by (simp add: unat_sub word_le_nat_alt word_less_nat_alt)

text \<open>
  Claim C1. With the eight registers of \<open>main\<close>, resolving a raw word \<open>v\<close> returns \<open>v\<close>
  itself when \<open>v < 32768\<close>, the content of register \<open>v - 32768\<close> when
  \<open>32768 \<le> v \<le> 32775\<close>, and fails with the overflow panic for every other value
  up to 65535; the register read is never out of range.
\<close>

theorem getValue_resolution:
  assumes "length regs = 8"
  shows "getValue regs v =
     (if unat v < 32768 then Inr v
      else if unat v \<le> 32775 then Inr (regs ! (unat v - 32768))
      else Inl Overflow)"
  using assms
  by (auto simp add: getValue_def at_def lt_32768 gt_32775 unat_sub_32768)

theorem getValue_resolution_witness:
  "length [10, 11, 12, 13, 14, 15, 16, 17 :: word16] = 8
   \<and> getValue [10, 11, 12, 13, 14, 15, 16, 17] 32770 = Inr 12
   \<and> getValue [10, 11, 12, 13, 14, 15, 16, 17] 32767 = Inr 32767
   \<and> getValue [10, 11, 12, 13, 14, 15, 16, 17] 32776 = Inl Overflow
   \<and> getValue [10, 11, 12, 13, 14, 15, 16, 17] 65535 = Inl Overflow"
  using getValue_resolution [of "[10, 11, 12, 13, 14, 15, 16, 17]" 32770]
        getValue_resolution [of "[10, 11, 12, 13, 14, 15, 16, 17]" 32767]
        getValue_resolution [of "[10, 11, 12, 13, 14, 15, 16, 17]" 32776]
        getValue_resolution [of "[10, 11, 12, 13, 14, 15, 16, 17]" 65535]
  by simp

section \<open>The stack is last-in-first-out\<close>

lemma PushAll_append: "PushAll s xs = s @ xs"
  by (induction xs arbitrary: s) (simp_all add: Push_def)

lemma Pop_snoc: "Pop (s @ [x]) = Inr (x, s)"
  by (simp add: Pop_def)

lemma PopN_append: "PopN (length xs) (s @ xs) = Inr (rev xs, s)"
proof (induction xs rule: rev_induct)
  case Nil
  show ?case by simp
next
  case (snoc y ys)
  have "PopN (Suc (length ys)) ((s @ ys) @ [y]) = Inr (y # rev ys, s)"
    unfolding PopN.simps Pop_snoc using snoc.IH by simp
  then show ?case by simp
qed

text \<open>
  Claim C9. For every word \<open>x\<close> and every stack, \<open>Push\<close> followed by \<open>Pop\<close> returns
  \<open>x\<close> and leaves the stack as it was; and after pushing any words \<open>xs\<close> in order,
  popping as many times returns them in reverse order and restores the stack.
\<close>

theorem stack_lifo:
  "Pop (Push s x) = Inr (x, s) \<and> PopN (length xs) (PushAll s xs) = Inr (rev xs, s)"
  by (simp add: Push_def Pop_snoc PushAll_append PopN_append)

section \<open>The 15-bit complement\<close>

lemma not_mod:
  fixes v :: word16
  assumes "v \<le> 32767"
  shows "(NOT v) mod 32768 = 32767 - v"
proof -
  have n: "unat v \<le> 32767" using assms by (simp add: word_le_nat_alt)
  have c: "NOT v = 65535 - v" by (simp add: not_eq_complement)
  have "unat (65535 - v) = 65535 - unat v"
    using n by (subst unat_sub) (simp_all add: word_le_nat_alt)
  then have "unat ((65535 - v) mod 32768) = (65535 - unat v) mod 32768"
    by (simp add: unat_mod)
  also have "\<dots> = (65535 - unat v - 32768) mod 32768"
    using n by (intro le_mod_geq) simp
  also have "\<dots> = 32767 - unat v"
    using n by simp
  also have "\<dots> = unat (32767 - v)"
    using n by (subst unat_sub) (simp_all add: word_le_nat_alt)
  finally have "unat ((65535 - v) mod 32768) = unat (32767 - v)" .
  then have "(65535 - v) mod 32768 = 32767 - v" by (rule unsigned_word_eqI)
  then show ?thesis unfolding c .
qed

lemma replicate_8: "replicate 8 x = [x, x, x, x, x, x, x, x]"
  by (simp add: numeral_eq_Suc)

lemma getValue_literal: "v < 32768 \<Longrightarrow> getValue regs v = Inr v"
  by (simp add: getValue_def)

lemma register_slot:
  assumes "32768 \<le> (r::word16)" and "r \<le> 32775"
  shows "unat (r - 32768) = unat r - 32768" and "unat r - 32768 < 8"
proof -
  have "\<not> r < 32768" using assms(1) by (simp add: not_less)
  then show "unat (r - 32768) = unat r - 32768" by (rule unat_sub_32768)
  have "unat r \<le> 32775" using assms(2) by (simp add: word_le_nat_alt)
  then show "unat r - 32768 < 8" by simp
qed

lemma setRegister_literal:
  assumes "v < 32768" and "length regs = 8" and "32768 \<le> r" and "r \<le> 32775"
  shows "setRegister regs r v = Inr (regs[unat r - 32768 := v])"
  using assms register_slot [of r]
  by (simp add: setRegister_def bindE_def getValue_literal)

lemma store_literal:
  assumes "v < 32768" and "length (registers s) = 8" and "32768 \<le> r" and "r \<le> 32775"
  shows "store s r v k =
           Continue (s\<lparr>registers := (registers s)[unat r - 32768 := v], index := index s + k\<rparr>)"
  using assms by (simp add: store_def setRegister_literal)

text \<open>
  Claim C6. For every \<open>v\<close> in \<open>[0, 32767]\<close>, executing \<open>not\<close> (opcode 14) whose second
  operand resolves to \<open>v\<close> stores \<open>32767 - v\<close> into the destination register: the
  16-bit complement reduced modulo 32768 is the 15-bit complement.
\<close>

theorem not_stores_complement:
  assumes "fetch (program s) (index s) = Inr (14, a, b, c)"
      and "length (registers s) = 8"
      and "32768 \<le> a" and "a \<le> 32775"
      and "getValue (registers s) b = Inr v"
      and "v \<le> 32767"
  shows "step s =
           Continue (s\<lparr>registers := (registers s)[unat a - 32768 := 32767 - v],
                       index := index s + 3\<rparr>)"
proof -
  have lt: "32767 - v < 32768"
  proof -
    have "unat v \<le> 32767" using assms(6) by (simp add: word_le_nat_alt)
    then have "unat (32767 - v) = 32767 - unat v"
      by (subst unat_sub) (simp_all add: word_le_nat_alt)
    then show ?thesis by (simp add: lt_32768)
  qed
  have "exec s 14 a b c = store s a (32767 - v) 2"
    using assms(5,6) by (simp add: exec_def not_mod)
  also have "\<dots> = Continue (s\<lparr>registers := (registers s)[unat a - 32768 := 32767 - v],
                                index := index s + 2\<rparr>)"
    using lt assms(2,3,4) by (rule store_literal)
  finally show ?thesis using assms(1) by (simp add: step_def)
qed

theorem not_stores_complement_witness:
  "step (init [14, 32768, 21845, 0] []) =
     Continue ((init [14, 32768, 21845, 0] [])\<lparr>registers := [10922, 0, 0, 0, 0, 0, 0, 0], index := 3\<rparr>)
   \<and> step (init [14, 32769, 0, 0] []) =
     Continue ((init [14, 32769, 0, 0] [])\<lparr>registers := [0, 32767, 0, 0, 0, 0, 0, 0], index := 3\<rparr>)
   \<and> step (init [14, 32768, 32767, 0] []) =
     Continue ((init [14, 32768, 32767, 0] [])\<lparr>registers := [0, 0, 0, 0, 0, 0, 0, 0], index := 3\<rparr>)"
  using not_stores_complement [of "init [14, 32768, 21845, 0] []" 32768 21845 0 21845]
        not_stores_complement [of "init [14, 32769, 0, 0] []" 32769 0 0 0]
        not_stores_complement [of "init [14, 32768, 32767, 0] []" 32768 32767 0 32767]
  by (simp add: init_def fetch_def at_def bindE_def getValue_def replicate_8)

section \<open>Single instructions\<close>

lemma step_exec:
  "fetch (program s) (index s) = Inr (op, a, b, c) \<Longrightarrow>
   step s = (case exec s op a b c of
               Continue s' \<Rightarrow> Continue (s'\<lparr>index := index s' + 1\<rparr>)
             | Stopped s' \<Rightarrow> Stopped s'
             | Fatal e \<Rightarrow> Fatal e)"
  by (simp add: step_def)

text \<open>
  Claim C5. With an empty stack, \<open>pop\<close> (opcode 3) ends the run with the panic raised
  from the empty-stack error, while \<open>ret\<close> (opcode 18) leaves the loop without an
  error; the two outcomes are different terminal states.
\<close>

theorem empty_stack_pop_vs_ret:
  assumes "stack s = []"
  shows "(fetch (program s) (index s) = Inr (3, a, b, c) \<longrightarrow> step s = Fatal EmptyStack)
       \<and> (fetch (program s) (index s) = Inr (18, a, b, c) \<longrightarrow> step s = Stopped s)
       \<and> Fatal EmptyStack \<noteq> Stopped s"
  using assms by (simp add: step_def exec_def Pop_def)

theorem empty_stack_pop_vs_ret_witness:
  "stack (init [3, 32768, 0, 0] []) = []
   \<and> step (init [3, 32768, 0, 0] []) = Fatal EmptyStack
   \<and> stack (init [18, 0, 0, 0] []) = []
   \<and> step (init [18, 0, 0, 0] []) = Stopped (init [18, 0, 0, 0] [])"
  using empty_stack_pop_vs_ret [of "init [3, 32768, 0, 0] []" 32768 0 0]
        empty_stack_pop_vs_ret [of "init [18, 0, 0, 0] []" 0 0 0]
  by (simp add: init_def fetch_def at_def bindE_def)

text \<open>
  Claim C10, as stated, fails: the dividend is resolved before the divisor is used, so
  with an invalid dividend operand the run ends with the overflow panic although the
  divisor is the literal 0.
\<close>

theorem mod_by_zero_counterexample:
  "getValue (registers (init [11, 32768, 40000, 0] [])) 0 = Inr 0
   \<and> step (init [11, 32768, 40000, 0] []) = Fatal Overflow
   \<and> Fatal Overflow \<noteq> Fatal DivideByZero"
  by (simp add: init_def step_def fetch_def at_def bindE_def exec_def getValue_def)

text \<open>
  Claim C10, amended. The division of \<open>mod\<close> (opcode 11) is unguarded: in every state
  where the dividend operand resolves and the divisor operand resolves to 0, executing
  opcode 11 ends the run with the runtime's division-by-zero panic; no register is
  written and no successor state exists.
\<close>

theorem mod_by_zero_is_fatal:
  assumes "fetch (program s) (index s) = Inr (11, a, b, c)"
      and "getValue (registers s) b = Inr x"
      and "getValue (registers s) c = Inr 0"
  shows "step s = Fatal DivideByZero"
  using assms by (simp add: step_def exec_def)

theorem mod_by_zero_is_fatal_witness:
  "fetch (program (init [11, 32768, 5, 0] [])) (index (init [11, 32768, 5, 0] [])) =
     Inr (11, 32768, 5, 0)
   \<and> getValue (registers (init [11, 32768, 5, 0] [])) 5 = Inr 5
   \<and> getValue (registers (init [11, 32768, 5, 0] [])) 0 = Inr 0
   \<and> step (init [11, 32768, 5, 0] []) = Fatal DivideByZero"
proof -
  have f: "fetch (program (init [11, 32768, 5, 0] [])) (index (init [11, 32768, 5, 0] [])) =
             Inr (11, 32768, 5, 0)"
    by (simp add: init_def fetch_def at_def bindE_def)
  have b: "getValue (registers (init [11, 32768, 5, 0] [])) 5 = Inr 5"
    by (simp add: getValue_def)
  have c: "getValue (registers (init [11, 32768, 5, 0] [])) 0 = Inr 0"
    by (simp add: getValue_def)
  show ?thesis using f b c mod_by_zero_is_fatal [OF f b c] by simp
qed

section \<open>Operand reads at the end of the program\<close>

lemma fetch_last_word:
  assumes "length prog < 65536" and "unat idx + 1 = length prog"
  shows "fetch prog idx = Inr (prog ! unat idx, 0, 0, 0)"
proof -
  have "\<not> idx + 1 < (of_nat (length prog) :: word16)"
  proof -
    have "(of_nat (length prog) :: word16) = of_nat (unat idx + 1)" using assms(2) by simp
    also have "\<dots> = idx + 1" by simp
    finally show ?thesis by simp
  qed
  then show ?thesis using assms(2) by (simp add: fetch_def bindE_def at_def)
qed

text \<open>
  Claim C3 does not hold of the code. The guard \<open>index+1 < length\<close> is repeated for the
  reads of \<open>program[index+2]\<close> and \<open>program[index+3]\<close>, so these two reads are not
  clipped: on the two-word program \<open>noop; halt\<close> the first iteration already panics
  with an index out of range, whereas the claim has the missing operands read as 0.
  Only when the opcode is the last word of the program are the three operands 0.
\<close>

theorem operand_read_past_end_panics:
  "fetch [21, 0] 0 = Inl IndexOutOfRange
   \<and> step (init [21, 0] []) = Fatal IndexOutOfRange
   \<and> fetch [19, 65, 0] 0 = Inl IndexOutOfRange
   \<and> fetch [21] 0 = Inr (21, 0, 0, 0)"
  by (simp add: init_def step_def fetch_def at_def bindE_def)

section \<open>The instruction index after an instruction\<close>

lemma store_index: "store s a v k = Continue s' \<Longrightarrow> index s' = index s + k"
  by (auto simp add: store_def split: sum.splits)

lemma binop_index: "binop s a b c f = Continue s' \<Longrightarrow> index s' = index s + 3"
  by (auto simp add: binop_def split: sum.splits dest: store_index)

lemma exec_index:
  assumes "exec s op a b c = Continue s'"
      and "op \<notin> {6, 17, 18}"
      and "op = 7 \<longrightarrow> getValue (registers s) a = Inr 0"
      and "op = 8 \<longrightarrow> getValue (registers s) a \<noteq> Inr 0"
  shows "index s' = index s + of_nat (spec_operand_count op)"
  using assms
  by (auto simp add: exec_def spec_operand_count_def
           split: if_splits sum.splits prod.splits list.splits option.splits
           dest!: store_index binop_index)

text \<open>
  Claim C4, as stated, fails for \<open>halt\<close>: opcode 0 leaves the loop with \<open>break\<close>
  before the \<open>index++\<close> at the end of the loop body, so the instruction index keeps
  its value instead of advancing by one.
\<close>

theorem halt_index_counterexample:
  "step (init [0] []) = Stopped (init [0] [])
   \<and> index (init [0] []) \<noteq> index (init [0] []) + of_nat (spec_operand_count 0) + 1"
  by (simp add: init_def step_def fetch_def at_def bindE_def exec_def spec_operand_count_def)

text \<open>
  Claim C4, amended. For every instruction that continues the loop and does not assign
  the instruction index (\<open>set\<close>, \<open>push\<close>, \<open>pop\<close>, \<open>eq\<close>, \<open>gt\<close>, \<open>add\<close>, \<open>mult\<close>, \<open>mod\<close>,
  \<open>and\<close>, \<open>or\<close>, \<open>not\<close>, \<open>rmem\<close>, \<open>wmem\<close>, \<open>out\<close>, \<open>in\<close>, \<open>noop\<close>, and \<open>jt\<close> and \<open>jf\<close>
  when the jump is not taken) the index afterwards is the index before plus the
  opcode's operand count plus one, in 16-bit arithmetic. \<open>halt\<close> is not among them: it
  stops with the index unchanged.
\<close>

theorem index_advance:
  assumes "fetch (program s) (index s) = Inr (op, a, b, c)"
      and "step s = Continue s'"
      and "op \<notin> {6, 17, 18}"
      and "op = 7 \<longrightarrow> getValue (registers s) a = Inr 0"
      and "op = 8 \<longrightarrow> getValue (registers s) a \<noteq> Inr 0"
  shows "op \<noteq> 0 \<and> index s' = index s + of_nat (spec_operand_count op) + 1"
proof -
  from assms(1,2) obtain s'' where e: "exec s op a b c = Continue s''"
    and s': "s' = s''\<lparr>index := index s'' + 1\<rparr>"
    by (auto simp add: step_def split: outcome.splits)
  from e have "op \<noteq> 0" by (auto simp add: exec_def)
  moreover have "index s'' = index s + of_nat (spec_operand_count op)"
    using e assms(3,4,5) by (rule exec_index)
  ultimately show ?thesis using s' by simp
qed

theorem index_advance_witness:
  "step (init [9, 32768, 32767, 5, 0, 0, 0] []) =
     Continue ((init [9, 32768, 32767, 5, 0, 0, 0] [])\<lparr>registers := [4, 0, 0, 0, 0, 0, 0, 0], index := 4\<rparr>)
   \<and> index ((init [9, 32768, 32767, 5, 0, 0, 0] [])\<lparr>registers := [4, 0, 0, 0, 0, 0, 0, 0], index := 4\<rparr>) =
       index (init [9, 32768, 32767, 5, 0, 0, 0] []) + of_nat (spec_operand_count 9) + 1"
proof -
  have f: "fetch (program (init [9, 32768, 32767, 5, 0, 0, 0] []))
                 (index (init [9, 32768, 32767, 5, 0, 0, 0] [])) = Inr (9, 32768, 32767, 5)"
    by (simp add: init_def fetch_def at_def bindE_def)
  have st: "step (init [9, 32768, 32767, 5, 0, 0, 0] []) =
     Continue ((init [9, 32768, 32767, 5, 0, 0, 0] [])\<lparr>registers := [4, 0, 0, 0, 0, 0, 0, 0], index := 4\<rparr>)"
    by (simp add: init_def step_def fetch_def at_def bindE_def exec_def binop_def store_def
                  setRegister_def getValue_def replicate_8)
  show ?thesis using st index_advance [OF f st] by simp
qed

section \<open>Reading a character\<close>

lemma ucast_byte_lt: "(ucast (ch::byte) :: word16) < 32768"
proof -
  have lt: "unat ch < 256" using unsigned_less [of ch] by simp
  have "unat (ucast ch :: word16) = take_bit 16 (unat ch)"
    by (simp add: unsigned_ucast_eq)
  also have "\<dots> = unat ch"
    using lt by (intro take_bit_nat_eq_self) simp
  finally show ?thesis using lt by (simp add: lt_32768)
qed

lemma ReadString_line:
  "ReadString xs = Some (line, later) \<Longrightarrow>
   line \<noteq> [] \<and> last line = 10 \<and> 10 \<notin> set (butlast line)
   \<and> (\<exists>excess. concat xs = line @ excess @ concat later)"
proof (induction xs arbitrary: line later)
  case Nil
  then show ?case by simp
next
  case (Cons chunk rest)
  from Cons.prems have ne: "chunk \<noteq> []" by (auto split: if_splits)
  show ?case
  proof (cases "10 \<in> set chunk")
    case True
    with Cons.prems ne have l: "line = takeWhile (\<lambda>ch. ch \<noteq> 10) chunk @ [10]"
      and r: "later = rest" by simp_all
    have d: "dropWhile (\<lambda>ch. ch \<noteq> 10) chunk \<noteq> []" using True by simp
    then have "hd (dropWhile (\<lambda>ch. ch \<noteq> 10) chunk) = 10"
      using hd_dropWhile [of "\<lambda>ch. ch \<noteq> 10" chunk] by simp
    with d have "dropWhile (\<lambda>ch. ch \<noteq> 10) chunk = 10 # tl (dropWhile (\<lambda>ch. ch \<noteq> 10) chunk)"
      by (cases "dropWhile (\<lambda>ch. ch \<noteq> 10) chunk") simp_all
    then have "chunk = line @ tl (dropWhile (\<lambda>ch. ch \<noteq> 10) chunk)"
      using takeWhile_dropWhile_id [of "\<lambda>ch. ch \<noteq> 10" chunk] l by simp
    then have "concat (chunk # rest) = line @ tl (dropWhile (\<lambda>ch. ch \<noteq> 10) chunk) @ concat later"
      using r by simp
    then have "\<exists>excess. concat (chunk # rest) = line @ excess @ concat later" by blast
    moreover have "10 \<notin> set (butlast line)"
      using l by (auto dest: set_takeWhileD)
    ultimately show ?thesis using l by simp
  next
    case False
    with Cons.prems ne obtain l where r: "ReadString rest = Some (l, later)"
      and l: "line = chunk @ l"
      by (auto split: option.splits)
    from Cons.IH [OF r] obtain excess where ih: "l \<noteq> []" "last l = 10" "10 \<notin> set (butlast l)"
      and c: "concat rest = l @ excess @ concat later" by blast
    have "concat (chunk # rest) = line @ excess @ concat later" using c l by simp
    then have "\<exists>excess. concat (chunk # rest) = line @ excess @ concat later" by blast
    moreover have "10 \<notin> set (butlast line)"
      using l ih False by (simp add: butlast_append)
    ultimately show ?thesis using l ih by simp
  qed
qed

text \<open>
  Claim C8. \<open>in\<close> (opcode 20) takes the first byte of the line buffer, removes it from
  the buffer, and stores its code in the destination register. The buffer is refilled
  only when it is empty, with one whole line: the bytes of the input stream up to and
  including the first newline (what the reads delivered beyond that newline is not kept,
  and a stream that ends before a newline is fatal). The byte is resolved through
  \<open>getValue\<close> before it is stored, which changes nothing since a byte is below 32768.
\<close>

theorem in_reads_one_character:
  assumes "fetch (program s) (index s) = Inr (20, a, b, c)"
      and "length (registers s) = 8" and "32768 \<le> a" and "a \<le> 32775"
  shows "(input s = ch # rest \<longrightarrow>
            step s = Continue (s\<lparr>registers := (registers s)[unat a - 32768 := ucast ch],
                                index := index s + 2, input := rest\<rparr>))
       \<and> (input s = [] \<longrightarrow> ReadString (stdin s) = Some (line, later) \<longrightarrow>
            line \<noteq> [] \<and> last line = 10 \<and> 10 \<notin> set (butlast line)
            \<and> (\<exists>excess. concat (stdin s) = line @ excess @ concat later)
            \<and> step s = Continue (s\<lparr>registers := (registers s)[unat a - 32768 := ucast (hd line)],
                                  index := index s + 2, input := tl line, stdin := later,
                                  stderr := stderr s @ [58]\<rparr>))
       \<and> (input s = [] \<longrightarrow> ReadString (stdin s) = None \<longrightarrow> step s = Fatal EndOfInput)
       \<and> getValue (registers s) (ucast ch) = Inr (ucast ch)"
proof (intro conjI impI)
  show g: "getValue (registers s) (ucast ch) = Inr (ucast ch)"
    by (simp add: getValue_literal ucast_byte_lt)
  show "step s = Fatal EndOfInput" if "input s = []" and "ReadString (stdin s) = None"
    using that assms(1) by (simp add: step_def exec_def)
  show "step s = Continue (s\<lparr>registers := (registers s)[unat a - 32768 := ucast ch],
                             index := index s + 2, input := rest\<rparr>)"
    if "input s = ch # rest"
  proof -
    have "exec s 20 a b c =
            Continue (s\<lparr>registers := (registers s)[unat a - 32768 := ucast ch],
                        index := index s + 1, input := rest\<rparr>)"
      using that assms(2,3,4)
      by (cases s) (simp add: exec_def getValue_literal store_literal ucast_byte_lt)
    then show ?thesis using assms(1) by (cases s) (simp add: step_def)
  qed
  assume e: "input s = []" and r: "ReadString (stdin s) = Some (line, later)"
  from ReadString_line [OF r]
  show ne: "line \<noteq> []" and "last line = 10" and "10 \<notin> set (butlast line)"
    and "\<exists>excess. concat (stdin s) = line @ excess @ concat later"
    by simp_all
  from ne obtain x xs where l: "line = x # xs" by (cases line) auto
  have "exec s 20 a b c =
          Continue (s\<lparr>registers := (registers s)[unat a - 32768 := ucast x],
                      index := index s + 1, input := xs, stdin := later,
                      stderr := stderr s @ [58]\<rparr>)"
    using e r l assms(2,3,4)
    by (cases s) (simp add: exec_def getValue_literal store_literal ucast_byte_lt)
  then show "step s = Continue (s\<lparr>registers := (registers s)[unat a - 32768 := ucast (hd line)],
                                  index := index s + 2, input := tl line, stdin := later,
                                  stderr := stderr s @ [58]\<rparr>)"
    using assms(1) l by (cases s) (simp add: step_def)
qed

theorem in_reads_one_character_witness:
  "step (init [20, 32768, 20, 32769, 0, 0, 0] [[72, 105, 10, 33, 10], [63, 10]]) =
     Continue ((init [20, 32768, 20, 32769, 0, 0, 0] [[72, 105, 10, 33, 10], [63, 10]])
                 \<lparr>registers := [72, 0, 0, 0, 0, 0, 0, 0], index := 2,
                  input := [105, 10], stdin := [[63, 10]], stderr := [58]\<rparr>)
   \<and> step ((init [20, 32768, 20, 32769, 0, 0, 0] [[72, 105, 10, 33, 10], [63, 10]])
                 \<lparr>registers := [72, 0, 0, 0, 0, 0, 0, 0], index := 2,
                  input := [105, 10], stdin := [[63, 10]], stderr := [58]\<rparr>) =
     Continue ((init [20, 32768, 20, 32769, 0, 0, 0] [[72, 105, 10, 33, 10], [63, 10]])
                 \<lparr>registers := [72, 105, 0, 0, 0, 0, 0, 0], index := 4,
                  input := [10], stdin := [[63, 10]], stderr := [58]\<rparr>)
   \<and> step (init [20, 32768, 0, 0] [[72, 105]]) = Fatal EndOfInput"
  using in_reads_one_character
          [of "init [20, 32768, 20, 32769, 0, 0, 0] [[72, 105, 10, 33, 10], [63, 10]]" 32768 20 32769
              0 "[]" "[72, 105, 10]" "[[63, 10]]"]
        in_reads_one_character
          [of "(init [20, 32768, 20, 32769, 0, 0, 0] [[72, 105, 10, 33, 10], [63, 10]])
                 \<lparr>registers := [72, 0, 0, 0, 0, 0, 0, 0], index := 2,
                  input := [105, 10], stdin := [[63, 10]], stderr := [58]\<rparr>" 32769 0 0
              105 "[10]" "[]" "[]"]
        in_reads_one_character [of "init [20, 32768, 0, 0] [[72, 105]]" 32768 0 0 0 "[]" "[]" "[]"]
  by (simp add: init_def fetch_def at_def bindE_def replicate_8)

section \<open>Call and return\<close>

lemma far_call_image_length: "length far_call_image = 32770"
  by (simp add: far_call_image_def)

lemma far_call_image_low:
  "far_call_image ! 0 = 6" "far_call_image ! Suc 0 = 32766" "far_call_image ! 2 = 0"
  "far_call_image ! 3 = 0" "far_call_image ! 4 = 18" "far_call_image ! 5 = 0"
  "far_call_image ! 6 = 0" "far_call_image ! 7 = 0"
  by (simp_all add: far_call_image_def nth_append)

lemma far_call_image_high:
  "far_call_image ! 32766 = 17" "far_call_image ! 32767 = 4" "far_call_image ! 32768 = 0"
  "far_call_image ! 32769 = 0"
  by (simp_all add: far_call_image_def nth_append)

lemma far_call_fetch:
  "fetch far_call_image 0 = Inr (6, 32766, 0, 0)"
  "fetch far_call_image 32766 = Inr (17, 4, 0, 0)"
  "fetch far_call_image 4 = Inr (18, 0, 0, 0)"
  by (simp_all add: fetch_def at_def bindE_def far_call_image_length far_call_image_low
                    far_call_image_high)

text \<open>
  Claim C7, as stated, fails for a call high in memory. \<open>ret\<close> resolves the popped
  word through \<open>getValue\<close>, so a return address of 32768 or more is read as a register
  reference. On \<open>far_call_image\<close> the run reaches the \<open>call\<close> at address 32766, which
  pushes 32768 and jumps to the \<open>ret\<close> at address 4; the \<open>ret\<close> then continues at the
  content of register 0, address 0, and not at the instruction after the call.
\<close>

theorem call_ret_counterexample:
  "steps 1 (init far_call_image []) = Continue ((init far_call_image [])\<lparr>index := 32766\<rparr>)
   \<and> steps 2 (init far_call_image []) =
       Continue ((init far_call_image [])\<lparr>stack := [32766 + 2], index := 4\<rparr>)
   \<and> steps 3 (init far_call_image []) =
       Continue ((init far_call_image [])\<lparr>stack := [], index := 0\<rparr>)
   \<and> (0::word16) \<noteq> 32766 + 2"
proof -
  have 1: "step (init far_call_image []) = Continue ((init far_call_image [])\<lparr>index := 32766\<rparr>)"
    by (simp add: step_def init_def far_call_fetch exec_def jump_def getValue_def)
  have 2: "step ((init far_call_image [])\<lparr>index := 32766\<rparr>) =
             Continue ((init far_call_image [])\<lparr>stack := [32768], index := 4\<rparr>)"
    by (simp add: step_def init_def far_call_fetch exec_def jump_def getValue_def Push_def)
  have 3: "step ((init far_call_image [])\<lparr>stack := [32768], index := 4\<rparr>) =
             Continue ((init far_call_image [])\<lparr>stack := [], index := 0\<rparr>)"
    by (simp add: step_def init_def far_call_fetch exec_def jump_def getValue_def Pop_def
                  at_def replicate_8)
  have s1: "steps 1 (init far_call_image []) =
              Continue ((init far_call_image [])\<lparr>index := 32766\<rparr>)"
    using 1 by simp
  have s2: "steps (Suc (Suc 0)) (init far_call_image []) =
              Continue ((init far_call_image [])\<lparr>stack := [32768], index := 4\<rparr>)"
    using 1 2 by simp
  have s3: "steps (Suc (Suc (Suc 0))) (init far_call_image []) =
              Continue ((init far_call_image [])\<lparr>stack := [], index := 0\<rparr>)"
    using 1 2 3 by simp
  have n: "(0::word16) \<noteq> 32766 + 2" by simp
  have e2: "(2::nat) = Suc (Suc 0)" and e3: "(3::nat) = Suc (Suc (Suc 0))" by simp_all
  show ?thesis unfolding e2 e3 using s1 s2 s3 n by simp
qed

lemma unat_plus_two:
  fixes i :: word16
  shows "unat (i + 2) = (if unat i < 65534 then unat i + 2 else unat i - 65534)"
proof -
  have lt: "unat i < 65536" using unsigned_less [of i] by simp
  have "unat (i + 2) = (unat i + 2) mod 65536" by (simp add: unat_word_ariths)
  also have "\<dots> = (if unat i < 65534 then unat i + 2 else unat i - 65534)"
  proof (cases "unat i < 65534")
    case True
    then show ?thesis by simp
  next
    case False
    then have "(unat i + 2) mod 65536 = (unat i + 2 - 65536) mod 65536"
      by (intro le_mod_geq) simp
    also have "\<dots> = unat i - 65534" using False lt by simp
    finally show ?thesis using False by simp
  qed
  finally show ?thesis .
qed

lemma getValue_register:
  assumes "32768 \<le> unat v" and "unat v \<le> 32775" and "length regs = 8"
  shows "getValue regs v = Inr (regs ! (unat v - 32768))"
  using assms by (simp add: getValue_def at_def lt_32768 gt_32775 unat_sub_32768)

lemma getValue_overflow: "32775 < unat v \<Longrightarrow> getValue regs v = Inl Overflow"
  by (simp add: getValue_def lt_32768 gt_32775)

lemma getValue_return_address:
  "unat i < 32766 \<or> 65534 \<le> unat i \<Longrightarrow> getValue regs (i + 2) = Inr (i + 2)"
  "32766 \<le> unat i \<Longrightarrow> unat i \<le> 32773 \<Longrightarrow> length regs = 8 \<Longrightarrow>
     getValue regs (i + 2) = Inr (regs ! (unat i - 32766))"
  "32774 \<le> unat i \<Longrightarrow> unat i < 65534 \<Longrightarrow> getValue regs (i + 2) = Inl Overflow"
proof -
  have lt: "unat i < 65536" using unsigned_less [of i] by simp
  show "getValue regs (i + 2) = Inr (i + 2)" if "unat i < 32766 \<or> 65534 \<le> unat i"
  proof -
    have "unat (i + 2) < 32768" using that lt unfolding unat_plus_two by auto
    then have "i + 2 < 32768" unfolding lt_32768 .
    then show ?thesis by (rule getValue_literal)
  qed
  show "getValue regs (i + 2) = Inr (regs ! (unat i - 32766))"
    if "32766 \<le> unat i" and "unat i \<le> 32773" and "length regs = 8"
  proof -
    have u: "unat (i + 2) = unat i + 2" using that(2) unfolding unat_plus_two by simp
    have "32768 \<le> unat (i + 2)" and "unat (i + 2) \<le> 32775"
      using that(1,2) unfolding u by simp_all
    then have "getValue regs (i + 2) = Inr (regs ! (unat (i + 2) - 32768))"
      using that(3) by (rule getValue_register)
    then show ?thesis unfolding u using that(1) by simp
  qed
  show "getValue regs (i + 2) = Inl Overflow" if "32774 \<le> unat i" and "unat i < 65534"
  proof -
    have "32775 < unat (i + 2)" using that unfolding unat_plus_two by simp
    then show ?thesis by (rule getValue_overflow)
  qed
qed

lemma call_at_step:
  "fetch (program (call_at 32766)) (index (call_at 32766)) = Inr (17, 0, 0, 0)"
  "step (call_at 32766) = Continue ((call_at 32766)\<lparr>stack := [32768], index := 0\<rparr>)"
  "fetch (program (call_at 32774)) (index (call_at 32774)) = Inr (17, 0, 0, 0)"
  "step (call_at 32774) = Continue ((call_at 32774)\<lparr>stack := [32776], index := 0\<rparr>)"
  "fetch (program (call_at 65534)) (index (call_at 65534)) = Inr (17, 0, 0, 0)"
  "step (call_at 65534) = Continue ((call_at 65534)\<lparr>stack := [0], index := 0\<rparr>)"
  by (simp_all add: call_at_def init_def step_def fetch_def at_def bindE_def nth_append
                    exec_def jump_def getValue_def Push_def)

lemma ret_on_fetch:
  "fetch (program (ret_on regs st)) (index (ret_on regs st)) = Inr (18, 0, 0, 0)"
  by (simp add: ret_on_def init_def fetch_def at_def bindE_def)

text \<open>
  Claim C7, amended. \<open>call\<close> (opcode 17) at index \<open>p\<close> pushes \<open>p + 2\<close>, in 16-bit
  arithmetic, and continues at \<open>value(a)\<close>. A later \<open>ret\<close> that finds the stack as the
  call left it pops that word, leaves the stack as it was before the call, and resolves
  the word through \<open>getValue\<close>. When \<open>p < 32766\<close> the word is a literal and the \<open>ret\<close>
  continues at \<open>p + 2\<close>, the instruction after the call; the same holds of the wrapped
  sum, 0 or 1, when \<open>p\<close> is 65534 or 65535. When \<open>32766 \<le> p \<le> 32773\<close> the word is a
  register reference and, with the eight registers of \<open>main\<close>, the \<open>ret\<close> continues at
  the content of register \<open>p - 32766\<close>. When \<open>32774 \<le> p \<le> 65533\<close> the \<open>ret\<close> ends the
  run with the overflow panic.
\<close>

theorem call_ret_round_trip:
  assumes "fetch (program s) (index s) = Inr (17, a, b, c)"
      and "step s = Continue s1"
      and "stack s2 = stack s1"
      and "fetch (program s2) (index s2) = Inr (18, a', b', c')"
  shows "stack s1 = stack s @ [index s + 2]
       \<and> getValue (registers s) a = Inr (index s1)
       \<and> (unat (index s) < 32766 \<or> 65534 \<le> unat (index s) \<longrightarrow>
            step s2 = Continue (s2\<lparr>stack := stack s, index := index s + 2\<rparr>))
       \<and> (32766 \<le> unat (index s) \<and> unat (index s) \<le> 32773 \<and> length (registers s2) = 8 \<longrightarrow>
            step s2 = Continue (s2\<lparr>stack := stack s,
                                   index := registers s2 ! (unat (index s) - 32766)\<rparr>))
       \<and> (32774 \<le> unat (index s) \<and> unat (index s) < 65534 \<longrightarrow> step s2 = Fatal Overflow)"
proof -
  from assms(1,2) obtain t where t: "getValue (registers s) a = Inr t"
    and s1: "s1 = s\<lparr>stack := stack s @ [index s + 2], index := t\<rparr>"
    by (cases s) (auto simp add: step_def exec_def jump_def Push_def split: sum.splits)
  have st: "stack s2 = stack s @ [index s + 2]" using assms(3) s1 by simp
  have ex: "exec s2 18 a' b' c' =
              (case getValue (registers s2) (index s + 2) of
                 Inl e \<Rightarrow> Fatal e
               | Inr r \<Rightarrow> Continue (s2\<lparr>stack := stack s, index := r - 1\<rparr>))"
    by (simp add: exec_def st Pop_snoc jump_def)
  have sp: "step s2 =
              (case getValue (registers s2) (index s + 2) of
                 Inl e \<Rightarrow> Fatal e
               | Inr r \<Rightarrow> Continue (s2\<lparr>stack := stack s, index := r\<rparr>))"
    using assms(4) ex by (simp add: step_def split: sum.splits)
  have low: "step s2 = Continue (s2\<lparr>stack := stack s, index := index s + 2\<rparr>)"
    if "unat (index s) < 32766 \<or> 65534 \<le> unat (index s)"
    using sp getValue_return_address(1) [OF that] by simp
  have reg: "step s2 = Continue (s2\<lparr>stack := stack s,
                                     index := registers s2 ! (unat (index s) - 32766)\<rparr>)"
    if "32766 \<le> unat (index s)" and "unat (index s) \<le> 32773" and "length (registers s2) = 8"
    using sp getValue_return_address(2) [OF that] by simp
  have ovf: "step s2 = Fatal Overflow"
    if "32774 \<le> unat (index s)" and "unat (index s) < 65534"
    using sp getValue_return_address(3) [OF that] by simp
  show ?thesis using t s1 low reg ovf by simp
qed

theorem call_ret_round_trip_witness:
  "step (init [17, 4, 0, 0, 18, 0, 0, 0] []) =
     Continue ((init [17, 4, 0, 0, 18, 0, 0, 0] [])\<lparr>stack := [2], index := 4\<rparr>)
   \<and> step ((init [17, 4, 0, 0, 18, 0, 0, 0] [])\<lparr>stack := [2], index := 4\<rparr>) =
     Continue ((init [17, 4, 0, 0, 18, 0, 0, 0] [])\<lparr>stack := [], index := 2\<rparr>)
   \<and> step (call_at 32766) = Continue ((call_at 32766)\<lparr>stack := [32768], index := 0\<rparr>)
   \<and> step (ret_on [7, 0, 0, 0, 0, 0, 0, 0] [32768]) =
     Continue ((ret_on [7, 0, 0, 0, 0, 0, 0, 0] [32768])\<lparr>stack := [], index := 7\<rparr>)
   \<and> step (call_at 32774) = Continue ((call_at 32774)\<lparr>stack := [32776], index := 0\<rparr>)
   \<and> step (ret_on [7, 0, 0, 0, 0, 0, 0, 0] [32776]) = Fatal Overflow
   \<and> step (call_at 65534) = Continue ((call_at 65534)\<lparr>stack := [0], index := 0\<rparr>)
   \<and> step (ret_on [7, 0, 0, 0, 0, 0, 0, 0] [0]) =
     Continue ((ret_on [7, 0, 0, 0, 0, 0, 0, 0] [0])\<lparr>stack := [], index := 0\<rparr>)"
proof -
  have f: "fetch (program (init [17, 4, 0, 0, 18, 0, 0, 0] []))
                 (index (init [17, 4, 0, 0, 18, 0, 0, 0] [])) = Inr (17, 4, 0, 0)"
    by (simp add: init_def fetch_def at_def bindE_def)
  have st: "step (init [17, 4, 0, 0, 18, 0, 0, 0] []) =
     Continue ((init [17, 4, 0, 0, 18, 0, 0, 0] [])\<lparr>stack := [2], index := 4\<rparr>)"
    by (simp add: init_def step_def fetch_def at_def bindE_def exec_def jump_def getValue_def
                  Push_def)
  have f2: "fetch (program ((init [17, 4, 0, 0, 18, 0, 0, 0] [])\<lparr>stack := [2], index := 4\<rparr>))
                  (index ((init [17, 4, 0, 0, 18, 0, 0, 0] [])\<lparr>stack := [2], index := 4\<rparr>)) =
              Inr (18, 0, 0, 0)"
    by (simp add: init_def fetch_def at_def bindE_def)
  have k1: "stack (ret_on [7, 0, 0, 0, 0, 0, 0, 0] [32768]) =
              stack ((call_at 32766)\<lparr>stack := [32768], index := 0\<rparr>)"
    and k2: "stack (ret_on [7, 0, 0, 0, 0, 0, 0, 0] [32776]) =
              stack ((call_at 32774)\<lparr>stack := [32776], index := 0\<rparr>)"
    and k3: "stack (ret_on [7, 0, 0, 0, 0, 0, 0, 0] [0]) =
              stack ((call_at 65534)\<lparr>stack := [0], index := 0\<rparr>)"
    by (simp_all add: ret_on_def)
  show ?thesis
    using st call_at_step(2,4,6)
          call_ret_round_trip [OF f st refl f2]
          call_ret_round_trip [OF call_at_step(1,2) k1 ret_on_fetch]
          call_ret_round_trip [OF call_at_step(3,4) k2 ret_on_fetch]
          call_ret_round_trip [OF call_at_step(5,6) k3 ret_on_fetch]
    by (simp add: init_def call_at_def ret_on_def)
qed

section \<open>The storage invariant holds in every reachable state\<close>

lemma getValue_lt:
  assumes "regs_ok regs" and "getValue regs v = Inr x"
  shows "x < 32768"
proof (cases "v < 32768")
  case True
  with assms(2) show ?thesis by (simp add: getValue_def)
next
  case False
  with assms(2) have "unat (v - 32768) < length regs" and "x = regs ! unat (v - 32768)"
    by (auto simp add: getValue_def at_def split: if_splits)
  then have "x \<in> set regs" by simp
  with assms(1) show ?thesis by (simp add: regs_ok_def list_all_iff)
qed

lemma regs_ok_update:
  assumes "regs_ok regs" and "x < 32768"
  shows "regs_ok (regs[i := x])"
proof -
  have "set (regs[i := x]) \<subseteq> insert x (set regs)" by (rule set_update_subset_insert)
  with assms show ?thesis by (auto simp add: regs_ok_def list_all_iff)
qed

lemma setRegister_ok:
  assumes "regs_ok regs" and "setRegister regs r v = Inr regs'"
  shows "regs_ok regs'"
proof -
  from assms(2) obtain x where x: "getValue regs v = Inr x" and r: "regs' = regs[unat (r - 32768) := x]"
    by (auto simp add: setRegister_def bindE_def split: sum.splits if_splits)
  from assms(1) x have "x < 32768" by (rule getValue_lt)
  with assms(1) r show ?thesis by (simp add: regs_ok_update)
qed

lemma store_ok:
  assumes "regs_ok (registers s)" and "mem_ok img (program s)"
      and "store s a v k = Continue s'"
  shows "regs_ok (registers s') \<and> mem_ok img (program s')"
proof -
  from assms(3) obtain regs where r: "setRegister (registers s) a v = Inr regs"
    and s': "s' = s\<lparr>registers := regs, index := index s + k\<rparr>"
    by (auto simp add: store_def split: sum.splits)
  from assms(1) r have "regs_ok regs" by (rule setRegister_ok)
  with assms(2) s' show ?thesis by simp
qed

lemma binop_ok:
  assumes "regs_ok (registers s)" and "mem_ok img (program s)"
      and "binop s a b c f = Continue s'"
  shows "regs_ok (registers s') \<and> mem_ok img (program s')"
  using assms by (auto simp add: binop_def split: sum.splits dest: store_ok)

lemma jump_ok:
  assumes "regs_ok (registers s)" and "mem_ok img (program s)"
      and "jump s v = Continue s'"
  shows "regs_ok (registers s') \<and> mem_ok img (program s')"
  using assms by (auto simp add: jump_def split: sum.splits)

lemma mem_ok_update:
  assumes "mem_ok img mem" and "x < 32768"
  shows "mem_ok img (mem[i := x])"
  unfolding mem_ok_def list_all2_conv_all_nth
proof (intro conjI allI impI)
  show "length (mem[i := x]) = length img"
    using assms(1) by (simp add: mem_ok_def list_all2_conv_all_nth)
  fix k assume k: "k < length (mem[i := x])"
  then have "mem ! k < 32768 \<or> mem ! k = img ! k"
    using assms(1) by (simp add: mem_ok_def list_all2_conv_all_nth)
  then show "mem[i := x] ! k < 32768 \<or> mem[i := x] ! k = img ! k"
    using k assms(2) by (cases "k = i") simp_all
qed

lemma exec_ok:
  assumes "regs_ok (registers s)" and "mem_ok img (program s)"
      and "exec s op a b c = Continue s'"
  shows "regs_ok (registers s') \<and> mem_ok img (program s')"
proof -
  have st: "regs_ok (registers t) \<and> mem_ok img (program t)"
    if "store u x v k = Continue t" and "registers u = registers s" and "program u = program s"
    for t u x v k
    using store_ok [of u img x v k t] that assms(1,2) by simp
  have jm: "regs_ok (registers t) \<and> mem_ok img (program t)"
    if "jump u v = Continue t" and "registers u = registers s" and "program u = program s"
    for t u v
    using jump_ok [of u img v t] that assms(1,2) by simp
  have wm: "mem_ok img ((program s)[i := x])"
    if "getValue (registers s) v = Inr x" for i x v
    using getValue_lt [OF assms(1) that] assms(2) by (rule mem_ok_update [rotated])
  show ?thesis
    using assms
    by (auto simp add: exec_def bindE_def
             split: if_splits sum.splits prod.splits list.splits option.splits
             dest: binop_ok st jm wm)
qed

lemma step_ok:
  assumes "storage_ok img s" and "step s = Continue s'"
  shows "storage_ok img s'"
proof -
  from assms(2) obtain op a b c s'' where e: "exec s op a b c = Continue s''"
    and s': "s' = s''\<lparr>index := index s'' + 1\<rparr>"
    by (auto simp add: step_def split: sum.splits outcome.splits)
  from assms(1) e have "regs_ok (registers s'') \<and> mem_ok img (program s'')"
    by (auto simp add: storage_ok_def dest: exec_ok)
  with s' show ?thesis by (simp add: storage_ok_def)
qed

lemma init_ok: "storage_ok img (init img tty)"
  by (simp add: storage_ok_def regs_ok_def mem_ok_def init_def replicate_8 list_all2_same)

lemma unat_of_nat_mod: "unat (of_nat (n mod 32768) :: word16) = n mod 32768"
proof -
  have "n mod 32768 < 32768" by simp
  then have "n mod 32768 < 65536" by (rule less_trans) simp
  then show ?thesis by (simp add: unat_of_nat)
qed

lemma of_nat_mod_lt: "(of_nat (n mod 32768) :: word16) < 32768"
  unfolding lt_32768 unat_of_nat_mod by simp

lemma mod_32768_word: "(w::word16) mod 32768 = of_nat (unat w mod 32768)"
proof -
  have "unat (w mod 32768) = unat (of_nat (unat w mod 32768) :: word16)"
    unfolding unat_of_nat_mod by (simp add: unat_mod)
  then show ?thesis by (rule unsigned_word_eqI)
qed

lemma mod_mod_32768: "(n mod 65536) mod 32768 = (n::nat) mod 32768"
  by (rule mod_mod_cancel) simp

lemma code_arith:
  fixes x y :: word16
  shows "(x + y) mod 32768 = of_nat ((unat x + unat y) mod 32768)"
    and "(x * y) mod 32768 = of_nat ((unat x * unat y) mod 32768)"
    and "(x AND y) mod 32768 = of_nat ((unat x AND unat y) mod 32768)"
    and "(x OR y) mod 32768 = of_nat ((unat x OR unat y) mod 32768)"
proof -
  have "unat (x + y) = (unat x + unat y) mod 65536" by (simp add: unat_word_ariths)
  then show "(x + y) mod 32768 = of_nat ((unat x + unat y) mod 32768)"
    unfolding mod_32768_word [of "x + y"] by (simp only: mod_mod_32768)
  have "unat (x * y) = (unat x * unat y) mod 65536" by (simp add: unat_word_ariths)
  then show "(x * y) mod 32768 = of_nat ((unat x * unat y) mod 32768)"
    unfolding mod_32768_word [of "x * y"] by (simp only: mod_mod_32768)
  have "unat (x AND y) = unat x AND unat y" by (rule unsigned_and_eq)
  then show "(x AND y) mod 32768 = of_nat ((unat x AND unat y) mod 32768)"
    unfolding mod_32768_word [of "x AND y"] by (simp only:)
  have "unat (x OR y) = unat x OR unat y" by (rule unsigned_or_eq)
  then show "(x OR y) mod 32768 = of_nat ((unat x OR unat y) mod 32768)"
    unfolding mod_32768_word [of "x OR y"] by (simp only:)
qed

lemma spec_arith_lt: "spec_arith op x y < 32768"
  by (simp add: spec_arith_def of_nat_mod_lt)

lemma exec_arith:
  assumes "op \<in> {9, 10, 12, 13}"
      and "getValue (registers s) b = Inr x" and "getValue (registers s) c = Inr y"
  shows "exec s op a b c = store s a (spec_arith op x y) 3"
  using assms by (auto simp add: exec_def binop_def spec_arith_def code_arith)

text \<open>
  Claim C2, as stated, fails for memory: the program image is the memory, and its
  operand words may be register references. After the first instruction of the
  four-word image \<open>set r0 5; halt\<close> the cell at address 1 still holds 32768, which is
  not in \<open>[0, 32767]\<close>.
\<close>

theorem memory_cell_counterexample:
  "step (init [1, 32768, 5, 0] []) =
     Continue ((init [1, 32768, 5, 0] [])\<lparr>registers := [5, 0, 0, 0, 0, 0, 0, 0], index := 3\<rparr>)
   \<and> program ((init [1, 32768, 5, 0] [])\<lparr>registers := [5, 0, 0, 0, 0, 0, 0, 0], index := 3\<rparr>) ! 1
       = 32768
   \<and> \<not> (32768::word16) \<le> 32767"
  by (simp add: init_def step_def fetch_def at_def bindE_def exec_def store_def
                setRegister_def getValue_def replicate_8)

text \<open>
  Claim C2, amended. In every state the loop reaches from the initial state, the
  register bank has its eight slots and each holds a value in \<open>[0, 32767]\<close>, never a
  register address; and each memory cell holds a value in \<open>[0, 32767]\<close> or still the
  word the image was loaded with. In such a state \<open>add\<close>, \<open>mult\<close>, \<open>and\<close> and \<open>or\<close>
  with a register destination store the result of the operation on the two resolved
  values reduced modulo 32768, \<open>not\<close> stores the 15-bit complement, and \<open>wmem\<close> writes
  the resolved value of its second operand; each of the stored values is in
  \<open>[0, 32767]\<close>.
\<close>

theorem storage_invariant:
  assumes "reachable img tty s"
  shows "regs_ok (registers s) \<and> mem_ok img (program s)
       \<and> (fetch (program s) (index s) = Inr (op, a, b, c) \<and> op \<in> {9, 10, 12, 13}
            \<and> 32768 \<le> a \<and> a \<le> 32775
            \<and> getValue (registers s) b = Inr x \<and> getValue (registers s) c = Inr y \<longrightarrow>
          spec_arith op x y < 32768
          \<and> step s = Continue (s\<lparr>registers := (registers s)[unat a - 32768 := spec_arith op x y],
                                index := index s + 4\<rparr>))
       \<and> (fetch (program s) (index s) = Inr (14, a, b, c) \<and> 32768 \<le> a \<and> a \<le> 32775
            \<and> getValue (registers s) b = Inr x \<longrightarrow>
          32767 - x < 32768
          \<and> step s = Continue (s\<lparr>registers := (registers s)[unat a - 32768 := 32767 - x],
                                index := index s + 3\<rparr>))
       \<and> (fetch (program s) (index s) = Inr (16, a, b, c)
            \<and> getValue (registers s) a = Inr y \<and> getValue (registers s) b = Inr x
            \<and> unat y < length (program s) \<longrightarrow>
          x < 32768
          \<and> step s = Continue (s\<lparr>program := (program s)[unat y := x], index := index s + 3\<rparr>))"
proof -
  from assms have "storage_ok img s"
  proof (induction rule: reachable.induct)
    case (reach_init img tty)
    show ?case by (rule init_ok)
  next
    case (reach_step img tty s s')
    then show ?case by (auto intro: step_ok)
  qed
  then have ok: "regs_ok (registers s)" and mem: "mem_ok img (program s)"
    by (simp_all add: storage_ok_def)
  then have len: "length (registers s) = 8" by (simp add: regs_ok_def)
  have arith: "step s = Continue (s\<lparr>registers := (registers s)[unat a - 32768 := spec_arith op x y],
                                     index := index s + 4\<rparr>)"
    if f: "fetch (program s) (index s) = Inr (op, a, b, c)" and o: "op \<in> {9, 10, 12, 13}"
      and a: "32768 \<le> a" "a \<le> 32775"
      and x: "getValue (registers s) b = Inr x" and y: "getValue (registers s) c = Inr y"
  proof -
    have "exec s op a b c = store s a (spec_arith op x y) 3" using o x y by (rule exec_arith)
    also have "\<dots> = Continue (s\<lparr>registers := (registers s)[unat a - 32768 := spec_arith op x y],
                                  index := index s + 3\<rparr>)"
      using spec_arith_lt len a by (rule store_literal)
    finally show ?thesis using f by (simp add: step_def)
  qed
  have inv: "32767 - x < 32768
      \<and> step s = Continue (s\<lparr>registers := (registers s)[unat a - 32768 := 32767 - x],
                             index := index s + 3\<rparr>)"
    if f: "fetch (program s) (index s) = Inr (14, a, b, c)"
      and a: "32768 \<le> a" "a \<le> 32775" and x: "getValue (registers s) b = Inr x"
  proof -
    have "x < 32768" using ok x by (rule getValue_lt)
    then have n: "unat x \<le> 32767" by (simp add: lt_32768)
    then have le: "x \<le> 32767" by (simp add: word_le_nat_alt)
    have "unat (32767 - x) = 32767 - unat x"
      using n by (subst unat_sub) (simp_all add: word_le_nat_alt)
    then have lt: "32767 - x < 32768" by (simp add: lt_32768)
    have "exec s 14 a b c = store s a (32767 - x) 2"
      using x le by (simp add: exec_def not_mod)
    also have "\<dots> = Continue (s\<lparr>registers := (registers s)[unat a - 32768 := 32767 - x],
                                  index := index s + 2\<rparr>)"
      using lt len a by (rule store_literal)
    finally show ?thesis using f lt by (simp add: step_def)
  qed
  have wmem: "x < 32768
      \<and> step s = Continue (s\<lparr>program := (program s)[unat y := x], index := index s + 3\<rparr>)"
    if f: "fetch (program s) (index s) = Inr (16, a, b, c)"
      and y: "getValue (registers s) a = Inr y" and x: "getValue (registers s) b = Inr x"
      and r: "unat y < length (program s)"
  proof -
    have "x < 32768" using ok x by (rule getValue_lt)
    moreover have "exec s 16 a b c =
        Continue (s\<lparr>program := (program s)[unat y := x], index := index s + 2\<rparr>)"
      using x y r by (simp add: exec_def)
    ultimately show ?thesis using f by (simp add: step_def)
  qed
  show ?thesis using ok mem arith inv wmem spec_arith_lt by blast
qed

theorem storage_invariant_witness:
  "reachable [9, 32768, 32767, 32767, 16, 5, 32768, 0, 0, 0] []
     ((init [9, 32768, 32767, 32767, 16, 5, 32768, 0, 0, 0] [])
        \<lparr>registers := [32766, 0, 0, 0, 0, 0, 0, 0],
         program := [9, 32768, 32767, 32767, 16, 32766, 32768, 0, 0, 0], index := 7\<rparr>)
   \<and> regs_ok [32766, 0, 0, 0, 0, 0, 0, 0]
   \<and> mem_ok [9, 32768, 32767, 32767, 16, 5, 32768, 0, 0, 0]
             [9, 32768, 32767, 32767, 16, 32766, 32768, 0, 0, 0]
   \<and> step (init [9, 32768, 32767, 32767] []) =
       Continue ((init [9, 32768, 32767, 32767] [])
                   \<lparr>registers := [32766, 0, 0, 0, 0, 0, 0, 0], index := 4\<rparr>)
   \<and> step (init [10, 32768, 32767, 32767] []) =
       Continue ((init [10, 32768, 32767, 32767] [])
                   \<lparr>registers := [1, 0, 0, 0, 0, 0, 0, 0], index := 4\<rparr>)
   \<and> step (init [12, 32768, 32767, 21845] []) =
       Continue ((init [12, 32768, 32767, 21845] [])
                   \<lparr>registers := [21845, 0, 0, 0, 0, 0, 0, 0], index := 4\<rparr>)
   \<and> step (init [13, 32768, 21845, 10922] []) =
       Continue ((init [13, 32768, 21845, 10922] [])
                   \<lparr>registers := [32767, 0, 0, 0, 0, 0, 0, 0], index := 4\<rparr>)
   \<and> step (init [14, 32768, 0, 0] []) =
       Continue ((init [14, 32768, 0, 0] [])
                   \<lparr>registers := [32767, 0, 0, 0, 0, 0, 0, 0], index := 3\<rparr>)
   \<and> step (init [16, 3, 32767, 0] []) =
       Continue ((init [16, 3, 32767, 0] [])\<lparr>program := [16, 3, 32767, 32767], index := 3\<rparr>)"
proof -
  have 1: "step (init [9, 32768, 32767, 32767, 16, 5, 32768, 0, 0, 0] []) =
             Continue ((init [9, 32768, 32767, 32767, 16, 5, 32768, 0, 0, 0] [])
                         \<lparr>registers := [32766, 0, 0, 0, 0, 0, 0, 0], index := 4\<rparr>)"
    by (simp add: init_def step_def fetch_def at_def bindE_def exec_def binop_def store_def
                  setRegister_def getValue_def replicate_8)
  have 2: "step ((init [9, 32768, 32767, 32767, 16, 5, 32768, 0, 0, 0] [])
                         \<lparr>registers := [32766, 0, 0, 0, 0, 0, 0, 0], index := 4\<rparr>) =
             Continue ((init [9, 32768, 32767, 32767, 16, 5, 32768, 0, 0, 0] [])
                        \<lparr>registers := [32766, 0, 0, 0, 0, 0, 0, 0],
                         program := [9, 32768, 32767, 32767, 16, 32766, 32768, 0, 0, 0],
                         index := 7\<rparr>)"
    by (simp add: init_def step_def fetch_def at_def bindE_def exec_def getValue_def)
  have r: "reachable [9, 32768, 32767, 32767, 16, 5, 32768, 0, 0, 0] []
     ((init [9, 32768, 32767, 32767, 16, 5, 32768, 0, 0, 0] [])
        \<lparr>registers := [32766, 0, 0, 0, 0, 0, 0, 0],
         program := [9, 32768, 32767, 32767, 16, 32766, 32768, 0, 0, 0], index := 7\<rparr>)"
    by (rule reach_step [OF reach_step [OF reach_init 1] 2])
  show ?thesis
    using r storage_invariant [OF r]
      storage_invariant [OF reach_init, where img = "[9, 32768, 32767, 32767]" and tty = "[]"
        and op = 9 and a = 32768 and b = 32767 and c = 32767 and x = 32767 and y = 32767]
      storage_invariant [OF reach_init, where img = "[10, 32768, 32767, 32767]" and tty = "[]"
        and op = 10 and a = 32768 and b = 32767 and c = 32767 and x = 32767 and y = 32767]
      storage_invariant [OF reach_init, where img = "[12, 32768, 32767, 21845]" and tty = "[]"
        and op = 12 and a = 32768 and b = 32767 and c = 21845 and x = 32767 and y = 21845]
      storage_invariant [OF reach_init, where img = "[13, 32768, 21845, 10922]" and tty = "[]"
        and op = 13 and a = 32768 and b = 21845 and c = 10922 and x = 21845 and y = 10922]
      storage_invariant [OF reach_init, where img = "[14, 32768, 0, 0]" and tty = "[]"
        and a = 32768 and b = 0 and c = 0 and x = 0]
      storage_invariant [OF reach_init, where img = "[16, 3, 32767, 0]" and tty = "[]"
        and a = 3 and b = 32767 and c = 0 and x = 32767 and y = 3]
    by (simp add: init_def fetch_def at_def bindE_def getValue_def spec_arith_def replicate_8)
qed

end
